theory Spec2Isabelle
  imports Complex_Main
begin

section \<open>Numbers, arrays and exceptions of the notebook\<close>

text \<open>
  The notebook \<^verbatim>\<open>ta_sessions/5_aiyagari.ipynb\<close> computes with Python floats and NumPy
  arrays of floats. Floats are modelled as exact reals: rounding and overflow are outside
  the model. What Python or NumPy does where a real number has no answer (division by
  zero, the square root of a negative number, a fractional power of a negative number) is
  written out as a branch of its own. Python integers are \<open>int\<close>. A Python exception is
  the left injection of a sum. The first seven exceptions are Python's own. The last three
  are the error kinds that the description of the notebook names; no statement of the
  notebook raises them.
\<close>

datatype exn =
    RecursionError | ZeroDivisionError | ValueError | KeyError | NameError | TypeError
  | UnboundLocalError
  | InvalidParameter | NonConvergence | NumericalInstability

text \<open>
  A Python number that comes out of \<^verbatim>\<open>**\<close>: a float, or (for a negative base and a
  fractional exponent) a complex number.
\<close>

datatype pynum = Float real | Cplx complex

text \<open>
  A NumPy value that is either made of finite floats or holds \<^verbatim>\<open>inf\<close> or \<^verbatim>\<open>nan\<close>.
  NumPy only warns when it produces them (a RuntimeWarning) and goes on.
\<close>

datatype 'a np = Finite 'a | NonFinite


type_synonym matrix = "real list list"

type_synonym params = "string \<rightharpoonup> real"

subsection \<open>Python float arithmetic\<close>

definition py_div :: "real \<Rightarrow> real \<Rightarrow> exn + real" where
  "py_div x y = (if y = 0 then Inl ZeroDivisionError else Inr (x / y))"

text \<open>
  \<^verbatim>\<open>x ** y\<close> on floats: \<^verbatim>\<open>0.0 ** y\<close> raises for \<open>y < 0\<close>, \<^verbatim>\<open>x ** 0.0\<close> is \<open>1.0\<close>,
  and Python 3 answers a negative base with a fractional exponent by the complex number
  of modulus \<open>\<bar>x\<bar> ** y\<close> and argument \<open>\<pi> y\<close>.
\<close>

definition py_pow :: "real \<Rightarrow> real \<Rightarrow> exn + pynum" where
  "py_pow x y =
     (if x = 0 then
        (if y < 0 then Inl ZeroDivisionError
         else if y = 0 then Inr (Float 1) else Inr (Float 0))
      else if 0 < x then Inr (Float (x powr y))
      else if y \<in> \<int> then Inr (Float (x powi \<lfloor>y\<rfloor>))
      else Inr (Cplx (rcis (\<bar>x\<bar> powr y) (pi * y))))"

definition py_scale :: "real \<Rightarrow> pynum \<Rightarrow> pynum" where
  "py_scale a v = (case v of Float x \<Rightarrow> Float (a * x) | Cplx z \<Rightarrow> Cplx (of_real a * z))"

definition getitem :: "params \<Rightarrow> string \<Rightarrow> exn + real" where
  "getitem param key = (case param key of None \<Rightarrow> Inl KeyError | Some v \<Rightarrow> Inr v)"

section \<open>factor\_prices\<close>

text \<open>
  \<^verbatim>\<open>
  def factor_prices(K, L, param):
      a = param['alpha']
      r = a * (K/L) ** (a-1)
      w = (1 - a) * (K/L) ** (a)
      return r, w
  \<close>
\<close>

definition factor_prices :: "real \<Rightarrow> real \<Rightarrow> params \<Rightarrow> exn + (pynum \<times> pynum)" where
  "factor_prices K L param =
     (case getitem param ''alpha'' of Inl e \<Rightarrow> Inl e | Inr a \<Rightarrow>
     (case py_div K L of Inl e \<Rightarrow> Inl e | Inr q1 \<Rightarrow>
     (case py_pow q1 (a - 1) of Inl e \<Rightarrow> Inl e | Inr x1 \<Rightarrow>
     (let r = py_scale a x1 in
     (case py_div K L of Inl e \<Rightarrow> Inl e | Inr q2 \<Rightarrow>
     (case py_pow q2 a of Inl e \<Rightarrow> Inl e | Inr x2 \<Rightarrow>
     (let w = py_scale (1 - a) x2 in
      Inr (r, w))))))))"

section \<open>aggregate\_kl\<close>

text \<open>
  \<^verbatim>\<open>
  def aggregate_kl(states, dist, param):
      K = dist @ states # wrong
      L = dist @ states # wrong
      return K, L
  \<close>
  \<^verbatim>\<open>@\<close> on two one-dimensional arrays is their inner product; it raises ValueError
  when the lengths differ. The argument \<^verbatim>\<open>dist\<close> is written \<open>distr\<close>.
\<close>

definition matmul_vec :: "real list \<Rightarrow> real list \<Rightarrow> exn + real" where
  "matmul_vec xs ys =
     (if length xs = length ys then Inr (sum_list (map2 (*) xs ys)) else Inl ValueError)"

definition aggregate_kl :: "real list \<Rightarrow> real list \<Rightarrow> params \<Rightarrow> exn + (real \<times> real)" where
  "aggregate_kl states distr param =
     (case matmul_vec distr states of Inl e \<Rightarrow> Inl e | Inr K \<Rightarrow>
     (case matmul_vec distr states of Inl e \<Rightarrow> Inl e | Inr L \<Rightarrow>
      Inr (K, L)))"

section \<open>cash\_in\_hand and solve\_pfi\<close>

text \<open>
  \<^verbatim>\<open>
  def cash_in_hand(k, l, r, w):
      cash = w * l + (1 + r) * k
      return cash
  \<close>
\<close>

definition cash_in_hand :: "real \<Rightarrow> real \<Rightarrow> real \<Rightarrow> real \<Rightarrow> real" where
  "cash_in_hand k l r w = w * l + (1 + r) * k"










section \<open>NumPy arrays\<close>

text \<open>
  A two-dimensional array is the list of its rows. \<open>py_slice n lo hi\<close> gives the bounds
  of the Python slice \<^verbatim>\<open>lo:hi\<close> on an axis of length \<open>n\<close>: a negative index counts
  from the end, and both are clipped to the axis.
\<close>

definition py_clip :: "nat \<Rightarrow> int \<Rightarrow> nat" where
  "py_clip n i = (if i < 0 then nat (max 0 (int n + i)) else min (nat i) n)"

definition py_slice :: "nat \<Rightarrow> int \<Rightarrow> int \<Rightarrow> nat \<times> nat" where
  "py_slice n lo hi = (py_clip n lo, py_clip n hi)"

definition ncols :: "matrix \<Rightarrow> nat" where
  "ncols A = (case A of [] \<Rightarrow> 0 | r # _ \<Rightarrow> length r)"

text \<open>\<^verbatim>\<open>np.zeros((m, n))\<close>; a negative dimension raises ValueError.\<close>

definition np_zeros :: "int \<Rightarrow> int \<Rightarrow> exn + matrix" where
  "np_zeros m n =
     (if m < 0 \<or> n < 0 then Inl ValueError else Inr (replicate (nat m) (replicate (nat n) 0)))"

text \<open>
  \<open>iadd_row c a q\<close> is the row \<open>a\<close> after \<^verbatim>\<open>a[c:c+len(q)] += q\<close>, and
  \<open>iadd_block r c A Q\<close> the array \<open>A\<close> after the rows of \<open>Q\<close> were added into the block
  whose top left corner is at row \<open>r\<close> and column \<open>c\<close>.
\<close>

definition iadd_row :: "nat \<Rightarrow> real list \<Rightarrow> real list \<Rightarrow> real list" where
  "iadd_row c a q = take c a @ map2 (+) (take (length q) (drop c a)) q @ drop (c + length q) a"

definition iadd_block :: "nat \<Rightarrow> nat \<Rightarrow> matrix \<Rightarrow> matrix \<Rightarrow> matrix" where
  "iadd_block r c A Q =
     take r A @ map2 (iadd_row c) (take (length Q) (drop r A)) Q @ drop (r + length Q) A"

text \<open>
  \<^verbatim>\<open>A[r0:r1, c0:c1] += Q\<close>. The model adds \<open>Q\<close> when it has the shape of the block, and
  raises ValueError otherwise, as NumPy does for shapes that cannot be broadcast.
  Broadcasting an axis of length one is not modelled: \<^verbatim>\<open>compute_P\<close> only ever adds a
  \<open>Q\<close> of the block's shape.
\<close>

definition iadd_slice :: "matrix \<Rightarrow> int \<Rightarrow> int \<Rightarrow> int \<Rightarrow> int \<Rightarrow> matrix \<Rightarrow> exn + matrix" where
  "iadd_slice A r0 r1 c0 c1 Q =
     (let (ra, rb) = py_slice (length A) r0 r1;
          (ca, cb) = py_slice (ncols A) c0 c1
      in if length Q = rb - ra \<and> list_all (\<lambda>q. length q = cb - ca) Q
         then Inr (iadd_block ra ca A Q)
         else Inl ValueError)"

text \<open>\<^verbatim>\<open>a * A + b * B\<close> for two arrays of one shape.\<close>

definition lincomb :: "real \<Rightarrow> matrix \<Rightarrow> real \<Rightarrow> matrix \<Rightarrow> matrix" where
  "lincomb a A b B = map2 (map2 (\<lambda>x y. a * x + b * y)) A B"

text \<open>\<^verbatim>\<open>P[r0:r1, :] /= d\<close>.\<close>

definition idiv_rows :: "matrix \<Rightarrow> int \<Rightarrow> int \<Rightarrow> real \<Rightarrow> matrix" where
  "idiv_rows P r0 r1 d =
     (let (ra, rb) = py_slice (length P) r0 r1
      in take ra P @ map (map (\<lambda>x. x / d)) (take (rb - ra) (drop ra P)) @ drop (ra + (rb - ra)) P)"

text \<open>
  \<^verbatim>\<open>np.sqrt\<close> answers a negative argument with \<^verbatim>\<open>nan\<close>; dividing a float by a NumPy
  float that is zero gives \<^verbatim>\<open>inf\<close> or \<^verbatim>\<open>nan\<close>; a product with a non-finite factor is
  non-finite.
\<close>

definition np_sqrt :: "real \<Rightarrow> real np" where
  "np_sqrt x = (if x < 0 then NonFinite else Finite (sqrt x))"

definition np_div :: "real \<Rightarrow> real np \<Rightarrow> real np" where
  "np_div x d = (case d of NonFinite \<Rightarrow> NonFinite
                 | Finite y \<Rightarrow> if y = 0 then NonFinite else Finite (x / y))"

definition np_mul :: "real np \<Rightarrow> real np \<Rightarrow> real np" where
  "np_mul a b = (case (a, b) of (Finite x, Finite y) \<Rightarrow> Finite (x * y) | _ \<Rightarrow> NonFinite)"

definition np_neg :: "real np \<Rightarrow> real np" where
  "np_neg a = (case a of Finite x \<Rightarrow> Finite (- x) | NonFinite \<Rightarrow> NonFinite)"

text \<open>
  \<^verbatim>\<open>np.linspace(start, stop, num)\<close>: \<open>num\<close> points, the first \<open>num - 1\<close> of them
  \<open>start + i * step\<close> with \<open>step = (stop - start) / (num - 1)\<close>, the last one set to
  \<open>stop\<close>; a single point is \<open>start\<close>; a negative \<open>num\<close> raises ValueError.
\<close>

definition linspace :: "real \<Rightarrow> real \<Rightarrow> nat \<Rightarrow> real list" where
  "linspace start stop num =
     (if num = 0 then []
      else if num = 1 then [start]
      else map (\<lambda>i. start + real i * ((stop - start) / real (num - 1))) [0..<num - 1] @ [stop])"

definition np_linspace :: "real np \<Rightarrow> real np \<Rightarrow> int \<Rightarrow> exn + real list np" where
  "np_linspace start stop num =
     (if num < 0 then Inl ValueError
      else if num = 0 then Inr (Finite [])
      else case (start, stop) of
             (Finite a, Finite b) \<Rightarrow> Inr (Finite (linspace a b (nat num)))
           | _ \<Rightarrow> Inr NonFinite)"

definition np_add :: "real list np \<Rightarrow> real \<Rightarrow> real list np" where
  "np_add s c = (case s of Finite xs \<Rightarrow> Finite (map (\<lambda>x. x + c) xs) | NonFinite \<Rightarrow> NonFinite)"

section \<open>rouwenhorst\<close>

text \<open>
  \<^verbatim>\<open>
  def rouwenhorst(N, mu, rho, sigma):

      def compute_P(p, N):
          if N == 2:
              P = np.array([[p, 1-p],
                            [1-p, p]])
          else:
              Q = compute_P(p, N-1)
              A = np.zeros((N, N))
              B = np.zeros((N, N))
              A[:N-1, :N-1] += Q
              A[1:N, 1:N] += Q
              B[:N-1, 1:N] += Q
              B[1:N, :N-1] += Q
              P = p * A + (1 - p) * B
              P[1:-1, :] /= 2
          return P

      p = (1 + rho) / 2
      P = compute_P(p, N)
      f = np.sqrt(N-1) * (sigma / np.sqrt(1-rho**2))
      s = np.linspace(-f, f, N) + mu
      return s, P
  \<close>
  \<open>compute_P_else p N Q\<close> is the else branch of \<^verbatim>\<open>compute_P\<close> after the recursive call
  has returned \<open>Q\<close>.
\<close>

definition compute_P_else :: "real \<Rightarrow> int \<Rightarrow> matrix \<Rightarrow> exn + matrix" where
  "compute_P_else p N Q =
     (case np_zeros N N of Inl e \<Rightarrow> Inl e | Inr A0 \<Rightarrow>
     (case np_zeros N N of Inl e \<Rightarrow> Inl e | Inr B0 \<Rightarrow>
     (case iadd_slice A0 0 (N - 1) 0 (N - 1) Q of Inl e \<Rightarrow> Inl e | Inr A1 \<Rightarrow>
     (case iadd_slice A1 1 N 1 N Q of Inl e \<Rightarrow> Inl e | Inr A2 \<Rightarrow>
     (case iadd_slice B0 0 (N - 1) 1 N Q of Inl e \<Rightarrow> Inl e | Inr B1 \<Rightarrow>
     (case iadd_slice B1 1 N 0 (N - 1) Q of Inl e \<Rightarrow> Inl e | Inr B2 \<Rightarrow>
      Inr (idiv_rows (lincomb p A2 (1 - p) B2) 1 (- 1) 2)))))))"

text \<open>
  Python ends a recursion that is too deep with RecursionError. The first argument of
  the model is the number of nested calls of \<^verbatim>\<open>compute_P\<close> the interpreter still
  allows; every call uses one.
\<close>

fun compute_P :: "nat \<Rightarrow> real \<Rightarrow> int \<Rightarrow> exn + matrix" where
  "compute_P 0 p N = Inl RecursionError"
| "compute_P (Suc depth) p N =
     (if N = 2 then Inr [[p, 1 - p], [1 - p, p]]
      else (case compute_P depth p (N - 1) of Inl e \<Rightarrow> Inl e
            | Inr Q \<Rightarrow> compute_P_else p N Q))"

definition rouwenhorst ::
  "nat \<Rightarrow> int \<Rightarrow> real \<Rightarrow> real \<Rightarrow> real \<Rightarrow> exn + (real list np \<times> matrix)" where
  "rouwenhorst depth N mu rho sigma =
     (let p = (1 + rho) / 2 in
     (case compute_P depth p N of Inl e \<Rightarrow> Inl e | Inr P \<Rightarrow>
     (let f = np_mul (np_sqrt (of_int (N - 1))) (np_div sigma (np_sqrt (1 - rho\<^sup>2))) in
     (case np_linspace (np_neg f) f N of Inl e \<Rightarrow> Inl e | Inr s \<Rightarrow>
      Inr (np_add s mu, P)))))"

text \<open>
  A matrix is row-stochastic when every row sums to one and every entry lies between
  zero and one.
\<close>

definition row_stochastic :: "matrix \<Rightarrow> bool" where
  "row_stochastic P =
     list_all (\<lambda>row. sum_list row = 1 \<and> list_all (\<lambda>x. 0 \<le> x \<and> x \<le> 1) row) P"

definition has_shape :: "nat \<Rightarrow> nat \<Rightarrow> matrix \<Rightarrow> bool" where
  "has_shape m n A = (length A = m \<and> list_all (\<lambda>r. length r = n) A)"

text \<open>
  Two predicates for the proofs about \<^verbatim>\<open>compute_P\<close>: a row of length \<open>n\<close> whose
  entries sum to \<open>s\<close> (and are non-negative when the flag \<open>nn\<close> is set), and an array all
  of whose rows are such rows, row \<open>i\<close> with the sum \<open>f i\<close>.
\<close>

definition good_row :: "bool \<Rightarrow> nat \<Rightarrow> real \<Rightarrow> real list \<Rightarrow> bool" where
  "good_row nn n s row =
     (length row = n \<and> sum_list row = s \<and> (nn \<longrightarrow> list_all (\<lambda>x. 0 \<le> x) row))"

definition rows_ok :: "bool \<Rightarrow> nat \<Rightarrow> (nat \<Rightarrow> real) \<Rightarrow> matrix \<Rightarrow> bool" where
  "rows_ok nn n f A = (\<forall>i < length A. good_row nn n (f i) (A ! i))"

section \<open>Slices and row sums\<close>

lemma sum_list_map2_add:
  "length xs = length ys \<Longrightarrow> sum_list (map2 (+) xs ys) = sum_list xs + sum_list (ys :: real list)"
  by (induction xs ys rule: list_induct2) auto

lemma sum_list_take_drop3:
  "sum_list (take c a) + sum_list (take m (drop c a)) + sum_list (drop (c + m) a) =
     sum_list (a :: real list)"
proof -
  have "sum_list (take m (drop c a)) + sum_list (drop m (drop c a)) = sum_list (drop c a)"
    by (metis append_take_drop_id sum_list_append)
  moreover have "sum_list (take c a) + sum_list (drop c a) = sum_list a"
    by (metis append_take_drop_id sum_list_append)
  ultimately show ?thesis by (simp add: add.commute)
qed

lemma iadd_row_good:
  assumes "good_row nn n s a" and "good_row nn m t q" and "c + m \<le> n"
  shows "good_row nn n (s + t) (iadd_row c a q)"
proof -
  from assms have la: "length a = n" and lq: "length q = m" by (simp_all add: good_row_def)
  have len: "length (take (length q) (drop c a)) = length q" using la lq assms(3) by simp
  have 1: "length (iadd_row c a q) = n" using la lq assms(3) by (simp add: iadd_row_def)
  have "sum_list (iadd_row c a q) =
          sum_list (take c a) + (sum_list (take (length q) (drop c a)) + sum_list q)
            + sum_list (drop (c + length q) a)"
    by (simp add: iadd_row_def sum_list_map2_add[OF len])
  also have "\<dots> = sum_list a + sum_list q"
    using sum_list_take_drop3[of c a "length q"] by simp
  finally have 2: "sum_list (iadd_row c a q) = s + t"
    using assms(1,2) by (simp add: good_row_def)
  have 3: "list_all (\<lambda>x. 0 \<le> x) (iadd_row c a q)" if nn
  proof -
    have nonneg: "\<forall>x \<in> set a. 0 \<le> x" "\<forall>x \<in> set q. 0 \<le> x"
      using assms(1,2) that by (simp_all add: good_row_def list_all_iff)
    have z: "0 \<le> x + y" if "(x, y) \<in> set (zip (take (length q) (drop c a)) q)" for x y
    proof -
      from that have "x \<in> set (take (length q) (drop c a))" and y: "y \<in> set q"
        by (auto dest: set_zip_leftD set_zip_rightD)
      then have "x \<in> set a" by (meson in_set_takeD in_set_dropD)
      with y nonneg show ?thesis by simp
    qed
    show ?thesis
      unfolding iadd_row_def list_all_iff
      using nonneg z by (auto dest: in_set_takeD in_set_dropD)
  qed
  from 1 2 3 show ?thesis by (simp add: good_row_def)
qed

lemma iadd_block_length: "r + length Q \<le> length A \<Longrightarrow> length (iadd_block r c A Q) = length A"
  by (simp add: iadd_block_def)

lemma iadd_block_nth:
  assumes "r + length Q \<le> length A" and "i < length A"
  shows "iadd_block r c A Q ! i =
           (if r \<le> i \<and> i < r + length Q then iadd_row c (A ! i) (Q ! (i - r)) else A ! i)"
  using assms by (auto simp: iadd_block_def nth_append)

lemma iadd_block_rows_ok:
  assumes "length A = m" and "rows_ok nn n f A" and "length Q = k" and "rows_ok nn n' g Q"
    and "r + k \<le> m" and "c + n' \<le> n"
  shows "length (iadd_block r c A Q) = m \<and>
         rows_ok nn n (\<lambda>i. f i + (if r \<le> i \<and> i < r + k then g (i - r) else 0)) (iadd_block r c A Q)"
proof -
  have len: "length (iadd_block r c A Q) = m"
    using assms by (simp add: iadd_block_length)
  have "good_row nn n (f i + (if r \<le> i \<and> i < r + k then g (i - r) else 0)) (iadd_block r c A Q ! i)"
    if "i < m" for i
  proof (cases "r \<le> i \<and> i < r + k")
    case True
    then have "i - r < length Q" using assms(3) by auto
    then have "good_row nn n' (g (i - r)) (Q ! (i - r))" using assms(4) by (simp add: rows_ok_def)
    moreover have "good_row nn n (f i) (A ! i)" using assms(1,2) that by (simp add: rows_ok_def)
    ultimately have "good_row nn n (f i + g (i - r)) (iadd_row c (A ! i) (Q ! (i - r)))"
      using assms(6) by (intro iadd_row_good)
    then show ?thesis using True assms that by (simp add: iadd_block_nth)
  next
    case False
    have "good_row nn n (f i) (A ! i)" using assms(1,2) that by (simp add: rows_ok_def)
    moreover have "iadd_block r c A Q ! i = A ! i"
      using False assms(1,3,5) that by (auto simp: iadd_block_nth)
    ultimately show ?thesis using False by auto
  qed
  with len show ?thesis by (simp add: rows_ok_def)
qed

lemma lincomb_rows_ok:
  assumes "length A = m" and "rows_ok nn n f A" and "length B = m" and "rows_ok nn n g B"
    and "nn \<longrightarrow> 0 \<le> a \<and> 0 \<le> b"
  shows "length (lincomb a A b B) = m \<and> rows_ok nn n (\<lambda>i. a * f i + b * g i) (lincomb a A b B)"
proof -
  have len: "length (lincomb a A b B) = m" using assms by (simp add: lincomb_def)
  have "good_row nn n (a * f i + b * g i) (lincomb a A b B ! i)" if "i < m" for i
  proof -
    have ra: "good_row nn n (f i) (A ! i)" and rb: "good_row nn n (g i) (B ! i)"
      using assms that by (simp_all add: rows_ok_def)
    have row: "lincomb a A b B ! i = map2 (\<lambda>x y. a * x + b * y) (A ! i) (B ! i)"
      using assms that by (simp add: lincomb_def)
    have "sum_list (map2 (\<lambda>x y. a * x + b * y) xs ys) = a * sum_list xs + b * sum_list ys"
      if "length xs = length ys" for xs ys :: "real list"
      using that by (induction xs ys rule: list_induct2) (auto simp: algebra_simps)
    moreover have "list_all (\<lambda>x. 0 \<le> x) (map2 (\<lambda>x y. a * x + b * y) xs ys)"
      if "list_all (\<lambda>x. 0 \<le> x) xs" "list_all (\<lambda>x. 0 \<le> x) ys" nn for xs ys :: "real list"
      using that assms(5) by (auto simp: list_all_iff elim!: in_set_zipE)
    ultimately show ?thesis using ra rb unfolding row by (simp add: good_row_def)
  qed
  with len show ?thesis by (simp add: rows_ok_def)
qed

lemma py_slice_1_m1: "py_slice n 1 (- 1) = (min 1 n, n - 1)"
  by (auto simp: py_slice_def py_clip_def)

lemma nth_map_range:
  assumes "lo \<le> hi" and "hi \<le> length xs" and "i < length xs"
  shows "(take lo xs @ map f (take (hi - lo) (drop lo xs)) @ drop hi xs) ! i =
           (if lo \<le> i \<and> i < hi then f (xs ! i) else xs ! i)"
proof -
  consider "i < lo" | "lo \<le> i" "i < hi" | "hi \<le> i" by linarith
  then show ?thesis
  proof cases
    case 1
    then show ?thesis using assms by (simp add: nth_append)
  next
    case 2
    then have "i - lo < hi - lo" by arith
    then show ?thesis using 2 assms by (simp add: nth_append)
  next
    case 3
    then have "\<not> i - lo < hi - lo" "\<not> i < lo" "i - lo - (hi - lo) = i - hi"
      "\<not> length xs - lo \<le> hi - lo" "hi + (i - hi) = i"
      using assms by arith+
    then show ?thesis using 3 assms by (simp add: nth_append min_def)
  qed
qed

lemma idiv_rows_rows_ok:
  assumes "length P = m" and "rows_ok nn n f P" and "2 \<le> m"
  shows "length (idiv_rows P 1 (- 1) 2) = m \<and>
         rows_ok nn n (\<lambda>i. if 1 \<le> i \<and> i < m - 1 then f i / 2 else f i) (idiv_rows P 1 (- 1) 2)"
proof -
  have m: "Suc (m - Suc (Suc 0)) = m - Suc 0" using assms(3) by arith
  have eq: "idiv_rows P 1 (- 1) 2 =
              take 1 P @ map (map (\<lambda>x. x / 2)) (take (m - 1 - 1) (drop 1 P)) @ drop (m - 1) P"
    using assms(1,3) unfolding idiv_rows_def py_slice_1_m1 by (simp add: m min_def)
  have len: "length (idiv_rows P 1 (- 1) 2) = m" using assms(1,3) unfolding eq by auto
  have halve: "good_row nn n (s / 2) (map (\<lambda>x. x / 2) row)" if "good_row nn n s row" for s row
  proof -
    have "sum_list (map (\<lambda>x. x / 2) xs) = sum_list xs / 2" for xs :: "real list"
      by (induction xs) (auto simp: add_divide_distrib)
    with that show ?thesis by (auto simp: good_row_def list_all_iff)
  qed
  have "good_row nn n (if 1 \<le> i \<and> i < m - 1 then f i / 2 else f i) (idiv_rows P 1 (- 1) 2 ! i)"
    if im: "i < m" for i
  proof -
    have g: "good_row nn n (f i) (P ! i)" using assms im by (simp add: rows_ok_def)
    have "idiv_rows P 1 (- 1) 2 ! i = (if 1 \<le> i \<and> i < m - 1 then map (\<lambda>x. x / 2) (P ! i) else P ! i)"
      unfolding eq using assms(1,3) im by (intro nth_map_range) auto
    then show ?thesis using g halve[OF g] by simp
  qed
  with len show ?thesis by (simp add: rows_ok_def)
qed


lemma rows_ok_cong: "(\<And>i. i < length A \<Longrightarrow> f i = g i) \<Longrightarrow> rows_ok nn n f A \<Longrightarrow> rows_ok nn n g A"
  by (simp add: rows_ok_def)

lemma rows_ok_shape: "rows_ok nn n f A \<Longrightarrow> list_all (\<lambda>r. length r = n) A"
  by (auto simp: rows_ok_def good_row_def list_all_length)

lemma rows_ok_ncols: "rows_ok nn n f A \<Longrightarrow> A \<noteq> [] \<Longrightarrow> ncols A = n"
  by (cases A) (auto simp: rows_ok_def good_row_def ncols_def)

lemma iadd_slice_ok:
  assumes "length A = m" and "0 < m" and "rows_ok nn n f A"
    and "length Q = k" and "rows_ok nn n' g Q"
    and "py_slice m r0 r1 = (ra, ra + k)" and "py_slice n c0 c1 = (ca, ca + n')"
    and "ra + k \<le> m" and "ca + n' \<le> n"
  shows "\<exists>A'. iadd_slice A r0 r1 c0 c1 Q = Inr A' \<and> length A' = m \<and>
           rows_ok nn n (\<lambda>i. f i + (if ra \<le> i \<and> i < ra + k then g (i - ra) else 0)) A'"
proof -
  have "A \<noteq> []" using assms(1,2) by auto
  then have nc: "ncols A = n" using assms(3) by (rule rows_ok_ncols[rotated])
  have "iadd_slice A r0 r1 c0 c1 Q = Inr (iadd_block ra ca A Q)"
    using assms(1,4,6,7) rows_ok_shape[OF assms(5)] by (simp add: iadd_slice_def nc)
  then show ?thesis
    using iadd_block_rows_ok[OF assms(1,3,4,5,8,9)] by simp
qed

lemma py_slice_head: "0 < n \<Longrightarrow> py_slice n 0 (int n - 1) = (0, 0 + (n - 1))"
  by (auto simp: py_slice_def py_clip_def)

lemma py_slice_tail: "0 < n \<Longrightarrow> py_slice n 1 (int n) = (1, 1 + (n - 1))"
  by (auto simp: py_slice_def py_clip_def)

lemma np_zeros_ok:
  "np_zeros (int n) (int n) = Inr (replicate n (replicate n 0))"
  "length (replicate n (replicate n (0::real))) = n"
  "rows_ok nn n (\<lambda>i. 0) (replicate n (replicate n 0))"
  by (simp_all add: np_zeros_def rows_ok_def good_row_def list_all_iff sum_list_replicate)

lemma compute_P_else_ok:
  assumes n: "3 \<le> n" and lq: "length Q = n - 1" and rq: "rows_ok nn (n - 1) (\<lambda>i. 1) Q"
    and p: "nn \<longrightarrow> 0 \<le> p \<and> p \<le> 1"
  shows "\<exists>P. compute_P_else p (int n) Q = Inr P \<and> length P = n \<and> rows_ok nn n (\<lambda>i. 1) P"
proof -
  let ?Z = "replicate n (replicate n (0::real))"
  have n0: "0 < n" and n1: "0 + (n - 1) \<le> n" "1 + (n - 1) \<le> n" using n by auto
  obtain A1 where A1: "iadd_slice ?Z 0 (int n - 1) 0 (int n - 1) Q = Inr A1" "length A1 = n"
    "rows_ok nn n (\<lambda>i. 0 + (if 0 \<le> i \<and> i < 0 + (n - 1) then 1 else 0)) A1"
    using iadd_slice_ok[OF np_zeros_ok(2) n0 np_zeros_ok(3) lq rq py_slice_head[OF n0] py_slice_head[OF n0] n1(1) n1(1)]
    by blast
  obtain A2 where A2: "iadd_slice A1 1 (int n) 1 (int n) Q = Inr A2" "length A2 = n"
    "rows_ok nn n (\<lambda>i. 0 + (if 0 \<le> i \<and> i < 0 + (n - 1) then 1 else 0)
                       + (if 1 \<le> i \<and> i < 1 + (n - 1) then 1 else 0)) A2"
    using iadd_slice_ok[OF A1(2) n0 A1(3) lq rq py_slice_tail[OF n0] py_slice_tail[OF n0] n1(2) n1(2)]
    by blast
  obtain B1 where B1: "iadd_slice ?Z 0 (int n - 1) 1 (int n) Q = Inr B1" "length B1 = n"
    "rows_ok nn n (\<lambda>i. 0 + (if 0 \<le> i \<and> i < 0 + (n - 1) then 1 else 0)) B1"
    using iadd_slice_ok[OF np_zeros_ok(2) n0 np_zeros_ok(3) lq rq py_slice_head[OF n0] py_slice_tail[OF n0] n1(1) n1(2)]
    by blast
  obtain B2 where B2: "iadd_slice B1 1 (int n) 0 (int n - 1) Q = Inr B2" "length B2 = n"
    "rows_ok nn n (\<lambda>i. 0 + (if 0 \<le> i \<and> i < 0 + (n - 1) then 1 else 0)
                       + (if 1 \<le> i \<and> i < 1 + (n - 1) then 1 else 0)) B2"
    using iadd_slice_ok[OF B1(2) n0 B1(3) lq rq py_slice_tail[OF n0] py_slice_head[OF n0] n1(2) n1(1)]
    by blast
  let ?s = "\<lambda>i::nat. 0 + (if 0 \<le> i \<and> i < 0 + (n - 1) then 1 else 0)
                       + (if 1 \<le> i \<and> i < 1 + (n - 1) then 1 else (0::real))"
  let ?L = "lincomb p A2 (1 - p) B2"
  have pp: "nn \<longrightarrow> 0 \<le> p \<and> 0 \<le> 1 - p" using p by auto
  have L: "length ?L = n" "rows_ok nn n (\<lambda>i. p * ?s i + (1 - p) * ?s i) ?L"
    using lincomb_rows_ok[OF A2(2,3) B2(2,3) pp] by simp_all
  have n2: "2 \<le> n" using n by simp
  let ?P = "idiv_rows ?L 1 (- 1) 2"
  have P: "length ?P = n"
    "rows_ok nn n (\<lambda>i. if 1 \<le> i \<and> i < n - 1 then (p * ?s i + (1 - p) * ?s i) / 2
                         else p * ?s i + (1 - p) * ?s i) ?P"
    using idiv_rows_rows_ok[OF L n2] by simp_all
  have "rows_ok nn n (\<lambda>i. 1) ?P"
  proof (rule rows_ok_cong[OF _ P(2)])
    fix i assume "i < length ?P"
    then have "i < n" using P(1) by simp
    with n show "(if 1 \<le> i \<and> i < n - 1 then (p * ?s i + (1 - p) * ?s i) / 2
                         else p * ?s i + (1 - p) * ?s i) = 1"
      by (auto simp: algebra_simps)
  qed
  moreover have "compute_P_else p (int n) Q = Inr ?P"
    using A1(1) A2(1) B1(1) B2(1) by (simp add: compute_P_else_def np_zeros_ok(1))
  ultimately show ?thesis using P(1) by simp
qed

section \<open>The recursion of compute\_P\<close>

lemma compute_P_ok:
  assumes "2 \<le> n" and "n - 1 \<le> d" and "nn \<longrightarrow> 0 \<le> p \<and> p \<le> 1"
  shows "\<exists>P. compute_P d p (int n) = Inr P \<and> length P = n \<and> rows_ok nn n (\<lambda>i. 1) P"
  using assms
proof (induction d arbitrary: n)
  case 0
  then show ?case by simp
next
  case (Suc d)
  show ?case
  proof (cases "n = 2")
    case True
    have "rows_ok nn 2 (\<lambda>i. 1) [[p, 1 - p], [1 - p, p]]"
    proof -
      have r: "good_row nn 2 1 [p, 1 - p]" "good_row nn 2 1 [1 - p, p]"
        using Suc.prems(3) by (simp_all add: good_row_def)
      have "good_row nn 2 1 ([[p, 1 - p], [1 - p, p]] ! i)" if "i < 2" for i :: nat
        using less_2_cases[OF that] r by auto
      then show ?thesis by (simp add: rows_ok_def)
    qed
    then show ?thesis using True by simp
  next
    case False
    then have n3: "3 \<le> n" using Suc.prems(1) by simp
    then have "2 \<le> n - 1" "n - 1 - 1 \<le> d" using Suc.prems(2) by auto
    from Suc.IH[OF this Suc.prems(3)] obtain Q where
      Q: "compute_P d p (int (n - 1)) = Inr Q" "length Q = n - 1" "rows_ok nn (n - 1) (\<lambda>i. 1) Q"
      by blast
    have "int n - 1 = int (n - 1)" using n3 by simp
    then have "compute_P d p (int n - 1) = Inr Q" using Q(1) by (simp only:)
    then have "compute_P (Suc d) p (int n) = compute_P_else p (int n) Q"
      using False by simp
    then show ?thesis using compute_P_else_ok[OF n3 Q(2,3) Suc.prems(3)] by simp
  qed
qed

lemma compute_P_below_two: "N < 2 \<Longrightarrow> compute_P d p N = Inl RecursionError"
  by (induction d arbitrary: N) auto

lemma compute_P_shallow: "2 \<le> N \<Longrightarrow> d < nat N - 1 \<Longrightarrow> compute_P d p N = Inl RecursionError"
proof (induction d arbitrary: N)
  case 0
  then show ?case by simp
next
  case (Suc d)
  then have "N \<noteq> 2" "2 \<le> N - 1" "d < nat (N - 1) - 1" by auto
  then show ?case using Suc.IH[of "N - 1"] by simp
qed

lemma elem_le_sum_list_real:
  "list_all (\<lambda>x. 0 \<le> x) xs \<Longrightarrow> x \<in> set xs \<Longrightarrow> x \<le> sum_list (xs :: real list)"
proof (induction xs)
  case Nil
  then show ?case by simp
next
  case (Cons a xs)
  then have "0 \<le> sum_list xs" by (auto simp: list_all_iff intro: sum_list_nonneg)
  with Cons show ?case by auto
qed

lemma rows_ok_stochastic:
  assumes "rows_ok True n (\<lambda>i. 1) P"
  shows "row_stochastic P"
proof -
  have "sum_list row = 1 \<and> list_all (\<lambda>x. 0 \<le> x \<and> x \<le> 1) row" if "row \<in> set P" for row
  proof -
    from that obtain i where "i < length P" "row = P ! i" by (auto simp: in_set_conv_nth)
    with assms have g: "sum_list row = 1" "list_all (\<lambda>x. 0 \<le> x) row"
      by (auto simp: rows_ok_def good_row_def)
    then have "\<forall>x \<in> set row. x \<le> 1" using elem_le_sum_list_real[of row] by auto
    with g show ?thesis by (auto simp: list_all_iff)
  qed
  then show ?thesis by (simp add: row_stochastic_def list_all_iff)
qed

lemma rows_ok_has_shape: "length P = n \<Longrightarrow> rows_ok nn n f P \<Longrightarrow> has_shape n n P"
  by (simp add: has_shape_def rows_ok_shape)

lemma rouwenhorst_returns:
  assumes "compute_P depth ((1 + rho) / 2) N = Inr P" and "0 \<le> N"
  shows "rouwenhorst depth N mu rho sigma =
    Inr (np_add (if N = 0 then Finite [] else
       case np_mul (np_sqrt (of_int (N - 1))) (np_div sigma (np_sqrt (1 - rho\<^sup>2))) of
         Finite f \<Rightarrow> Finite (linspace (- f) f (nat N)) | NonFinite \<Rightarrow> NonFinite) mu, P)"
  using assms by (simp add: rouwenhorst_def Let_def np_linspace_def np_neg_def split: np.splits)

lemma scale_finite:
  assumes "2 \<le> N" and "\<bar>rho\<bar> < 1"
  shows "np_mul (np_sqrt (of_int (N - 1))) (np_div sigma (np_sqrt (1 - rho\<^sup>2))) =
           Finite (sqrt (of_int (N - 1)) * (sigma / sqrt (1 - rho\<^sup>2)))"
proof -
  have "rho\<^sup>2 < 1" using assms(2) by (simp add: abs_square_less_1)
  then have a: "\<not> 1 - rho\<^sup>2 < 0" "sqrt (1 - rho\<^sup>2) \<noteq> 0" by auto
  have b: "\<not> (of_int (N - 1) :: real) < 0" using assms(1) by simp
  show ?thesis unfolding np_sqrt_def np_div_def np_mul_def using a b by (simp only: if_False np.case prod.case)
qed

lemma scale_nonfinite:
  assumes "1 \<le> \<bar>rho\<bar>"
  shows "np_mul (np_sqrt (of_int (N - 1))) (np_div sigma (np_sqrt (1 - rho\<^sup>2))) = NonFinite"
proof -
  have "\<not> rho\<^sup>2 < 1" using assms by (simp add: abs_square_less_1)
  then consider "1 - rho\<^sup>2 < 0" | "1 - rho\<^sup>2 = 0" by fastforce
  then have "np_div sigma (np_sqrt (1 - rho\<^sup>2)) = NonFinite"
    by cases (simp_all add: np_sqrt_def np_div_def)
  then show ?thesis by (simp add: np_mul_def split: np.splits)
qed

lemma linspace_length: "length (linspace a b n) = n"
  by (simp add: linspace_def)

lemma linspace_nth:
  assumes "2 \<le> n" and "i < n"
  shows "linspace a b n ! i = a + real i * ((b - a) / real (n - 1))"
proof (cases "i < n - 1")
  case True
  then show ?thesis using assms(1) by (simp add: linspace_def nth_append)
next
  case False
  then have i: "i = n - 1" using assms(2) by simp
  have "real (n - 1) \<noteq> 0" using assms(1) by simp
  then have "a + real (n - 1) * ((b - a) / real (n - 1)) = b" by simp
  moreover have "linspace a b n ! (n - 1) = b" using assms(1) by (simp add: linspace_def nth_append)
  ultimately show ?thesis using i by simp
qed

lemma compute_P_returns:
  assumes "2 \<le> N" and "nat N - 1 \<le> depth"
  shows "\<exists>P. compute_P depth ((1 + rho) / 2) N = Inr P \<and> length P = nat N \<and>
             rows_ok (\<bar>rho\<bar> \<le> 1) (nat N) (\<lambda>i. 1) P"
proof -
  have "\<bar>rho\<bar> \<le> 1 \<longrightarrow> 0 \<le> (1 + rho) / 2 \<and> (1 + rho) / 2 \<le> 1" by auto
  moreover have "2 \<le> nat N" using assms(1) by simp
  ultimately have "\<exists>P. compute_P depth ((1 + rho) / 2) (int (nat N)) = Inr P \<and> length P = nat N \<and>
             rows_ok (\<bar>rho\<bar> \<le> 1) (nat N) (\<lambda>i. 1) P"
    using assms(2) by (intro compute_P_ok)
  then show ?thesis using assms(1) by simp
qed

lemma compute_P_error: "compute_P d p N = Inl e \<Longrightarrow> e = RecursionError"
proof -
  assume a: "compute_P d p N = Inl e"
  consider "N < 2" | "2 \<le> N" "d < nat N - 1" | "2 \<le> N" "nat N - 1 \<le> d" by linarith
  then show ?thesis
  proof cases
    case 1
    then show ?thesis using a compute_P_below_two[of N d p] by simp
  next
    case 2
    then show ?thesis using a compute_P_shallow[of N d p] by simp
  next
    case 3
    have "\<exists>P. compute_P d p (int (nat N)) = Inr P \<and> length P = nat N \<and> rows_ok False (nat N) (\<lambda>i. 1) P"
      using 3 by (intro compute_P_ok) auto
    then show ?thesis using a 3(1) by simp
  qed
qed

lemma rouwenhorst_finite:
  assumes "compute_P depth ((1 + rho) / 2) N = Inr P" and "2 \<le> N" and "\<bar>rho\<bar> < 1"
  shows "rouwenhorst depth N mu rho sigma =
           Inr (Finite (map (\<lambda>x. x + mu)
                  (linspace (- (sqrt (of_int (N - 1)) * (sigma / sqrt (1 - rho\<^sup>2))))
                            (sqrt (of_int (N - 1)) * (sigma / sqrt (1 - rho\<^sup>2))) (nat N))), P)"
  unfolding rouwenhorst_def Let_def scale_finite[OF assms(2,3)] assms(1)
  using assms(2) by (simp add: np_linspace_def np_neg_def np_add_def)

lemma rouwenhorst_nonfinite:
  assumes "compute_P depth ((1 + rho) / 2) N = Inr P" and "2 \<le> N" and "1 \<le> \<bar>rho\<bar>"
  shows "rouwenhorst depth N mu rho sigma = Inr (NonFinite, P)"
  unfolding rouwenhorst_def Let_def scale_nonfinite[OF assms(3)] assms(1)
  using assms(2) by (simp add: np_linspace_def np_neg_def np_add_def)

lemma np_linspace_error: "np_linspace a b n = Inl e \<Longrightarrow> e = ValueError"
  by (cases a; cases b) (auto simp: np_linspace_def split: if_splits)

section \<open>The transition matrix\<close>

text \<open>
  Claim C1. For every state count \<open>N \<ge> 2\<close> and persistence \<open>\<rho>\<close> with \<open>\<bar>\<rho>\<bar> < 1\<close>, the
  transition matrix that \<^verbatim>\<open>rouwenhorst\<close> returns is row-stochastic: every row sums to
  one and every entry lies in \<open>[0, 1]\<close>. The call returns when the interpreter allows
  the \<open>N - 1\<close> nested calls of \<^verbatim>\<open>compute_P\<close>.
\<close>

theorem rouwenhorst_row_stochastic:
  assumes "2 \<le> N" and "\<bar>rho\<bar> < 1" and "nat N - 1 \<le> depth"
  shows "\<exists>s P. rouwenhorst depth N mu rho sigma = Inr (s, P) \<and> row_stochastic P"
proof -
  from compute_P_returns[OF assms(1,3), of rho] obtain P where
    P: "compute_P depth ((1 + rho) / 2) N = Inr P" "rows_ok (\<bar>rho\<bar> \<le> 1) (nat N) (\<lambda>i. 1) P"
    by blast
  have "rows_ok True (nat N) (\<lambda>i. 1) P" using P(2) assms(2) by simp
  then have "row_stochastic P" by (rule rows_ok_stochastic)
  moreover have "0 \<le> N" using assms(1) by simp
  ultimately show ?thesis using rouwenhorst_returns[where mu = mu and sigma = sigma, OF P(1)] by blast
qed

theorem rouwenhorst_row_stochastic_witness:
  "(2 :: int) \<le> 3 \<and> \<bar>1 / 2 :: real\<bar> < 1 \<and> nat 3 - 1 \<le> (2 :: nat) \<and>
   (\<exists>s P. rouwenhorst 2 3 0 (1 / 2) 1 = Inr (s, P) \<and> row_stochastic P)"
  using rouwenhorst_row_stochastic[of 3 "1 / 2" 2 0 1] by simp

text \<open>
  Claim C2. For \<open>N = 2\<close> the matrix is \<open>[[p, 1 - p], [1 - p, p]]\<close> with
  \<open>p = (1 + \<rho>) / 2\<close>. It comes out of the base case: a single call of \<^verbatim>\<open>compute_P\<close>
  (depth one) produces it, with no further call. For \<open>\<rho> = 0.5\<close> it is
  \<open>[[0.75, 0.25], [0.25, 0.75]]\<close>.
\<close>

theorem rouwenhorst_two_states:
  "compute_P (Suc 0) p 2 = Inr [[p, 1 - p], [1 - p, p]]
   \<and> (0 < depth \<longrightarrow>
        (\<exists>s. rouwenhorst depth 2 mu rho sigma =
               Inr (s, [[(1 + rho) / 2, 1 - (1 + rho) / 2], [1 - (1 + rho) / 2, (1 + rho) / 2]]))
      \<and> (\<exists>s. rouwenhorst depth 2 mu (1 / 2) sigma = Inr (s, [[3 / 4, 1 / 4], [1 / 4, 3 / 4]])))"
proof -
  have base: "compute_P depth q 2 = Inr [[q, 1 - q], [1 - q, q]]" if "0 < depth" for q
    using that by (cases depth) simp_all
  have "\<exists>s. rouwenhorst depth 2 mu r sigma =
               Inr (s, [[(1 + r) / 2, 1 - (1 + r) / 2], [1 - (1 + r) / 2, (1 + r) / 2]])"
    if "0 < depth" for r
    using rouwenhorst_returns[where rho = r and mu = mu and sigma = sigma, OF base[OF that]]
    by simp
  from this[of rho] this[of "1 / 2"] show ?thesis by simp
qed

theorem rouwenhorst_two_states_witness:
  "(0 :: nat) < 1 \<and>
   (\<exists>s. rouwenhorst 1 2 0 (1 / 2) 1 = Inr (s, [[3 / 4, 1 / 4], [1 / 4, 3 / 4]]))"
  using rouwenhorst_two_states[of 0 1 0 "1 / 2" 1] by simp

section \<open>The state values\<close>

text \<open>
  Claim C3. For every \<open>N \<ge> 2\<close>, \<open>\<bar>\<rho>\<bar> < 1\<close>, \<open>\<sigma> \<ge> 0\<close> and mean \<open>\<mu>\<close>, the state values
  that \<^verbatim>\<open>rouwenhorst\<close> returns are \<open>N\<close> points evenly spaced over \<open>[\<mu> - f, \<mu> + f]\<close>
  with \<open>f = sqrt (N - 1) \<sigma> / sqrt (1 - \<rho>\<^sup>2)\<close>: the first is \<open>\<mu> - f\<close>, the last is
  \<open>\<mu> + f\<close>, and point \<open>i\<close> lies \<open>i\<close> steps of \<open>2 f / (N - 1)\<close> above the first.
\<close>

theorem rouwenhorst_states_evenly_spaced:
  assumes "2 \<le> N" and "\<bar>rho\<bar> < 1" and "0 \<le> sigma" and "nat N - 1 \<le> depth"
  shows "let f = sqrt (of_int (N - 1)) * sigma / sqrt (1 - rho\<^sup>2) in
         \<exists>s P. rouwenhorst depth N mu rho sigma = Inr (Finite s, P)
           \<and> length s = nat N
           \<and> s ! 0 = mu - f
           \<and> s ! (nat N - 1) = mu + f
           \<and> (\<forall>i < nat N. s ! i = (mu - f) + real i * (2 * f / real (nat N - 1)))"
proof -
  define f where "f = sqrt (of_int (N - 1)) * sigma / sqrt (1 - rho\<^sup>2)"
  define s where "s = map (\<lambda>x. x + mu) (linspace (- f) f (nat N))"
  from compute_P_returns[OF assms(1,4), of rho] obtain P where
    P: "compute_P depth ((1 + rho) / 2) N = Inr P" by blast
  have N: "0 \<le> N" "N \<noteq> 0" "2 \<le> nat N" using assms(1) by auto
  have ret: "rouwenhorst depth N mu rho sigma = Inr (Finite s, P)"
    unfolding rouwenhorst_finite[OF P assms(1,2)] s_def f_def by simp
  have len: "length s = nat N" by (simp add: s_def linspace_length)
  have nth: "s ! i = (mu - f) + real i * (2 * f / real (nat N - 1))" if "i < nat N" for i
    using that by (simp add: s_def linspace_length linspace_nth[OF N(3) that])
  have "real (nat N - 1) \<noteq> 0" using N(3) by simp
  then have "real (nat N - 1) * (2 * f / real (nat N - 1)) = 2 * f" by simp
  then have last: "s ! (nat N - 1) = mu + f" using nth[of "nat N - 1"] N(3) by simp
  have first: "s ! 0 = mu - f" using nth[of 0] N(3) by simp
  from ret len nth first last show ?thesis unfolding Let_def f_def[symmetric] by blast
qed

theorem rouwenhorst_states_evenly_spaced_witness:
  "(2 :: int) \<le> 3 \<and> \<bar>0 :: real\<bar> < 1 \<and> (0 :: real) \<le> 1 \<and> nat 3 - 1 \<le> (2 :: nat) \<and>
   (\<exists>s P. rouwenhorst 2 3 5 0 1 = Inr (Finite s, P) \<and> length s = 3
      \<and> s ! 0 = 5 - sqrt 2 \<and> s ! 2 = 5 + sqrt 2 \<and> s ! 1 = 5)"
proof -
  have "(2::int) \<le> 3" "\<bar>0::real\<bar> < 1" "(0::real) \<le> 1" "nat 3 - 1 \<le> (2::nat)" by simp_all
  from rouwenhorst_states_evenly_spaced[OF this, of 5] show ?thesis
    by (auto simp: Let_def)
qed

section \<open>Termination of the recursion\<close>

text \<open>
  Claim C9. For every \<open>N \<ge> 2\<close> (and any \<open>\<mu>\<close>, \<open>\<sigma>\<close> and \<open>\<rho>\<close> with \<open>\<bar>\<rho>\<bar> < 1\<close>) the recursion
  of \<^verbatim>\<open>compute_P\<close> terminates: it descends from \<open>N\<close> to the base case \<open>N = 2\<close>, so
  that \<open>N - 1\<close> nested calls are enough (and needed) for \<^verbatim>\<open>compute_P\<close> to return an
  \<open>N \<times> N\<close> matrix, and \<^verbatim>\<open>rouwenhorst\<close> returns its pair of state values and matrix.
\<close>

theorem compute_P_terminates:
  assumes "2 \<le> N" and "\<bar>rho\<bar> < 1" and "nat N - 1 \<le> depth"
  shows "(\<exists>P. compute_P depth ((1 + rho) / 2) N = Inr P \<and> has_shape (nat N) (nat N) P)
       \<and> (\<exists>s P. rouwenhorst depth N mu rho sigma = Inr (Finite s, P))
       \<and> (\<forall>d < nat N - 1. compute_P d ((1 + rho) / 2) N = Inl RecursionError)"
proof -
  from compute_P_returns[OF assms(1,3), of rho] obtain P where
    P: "compute_P depth ((1 + rho) / 2) N = Inr P" "length P = nat N"
       "rows_ok (\<bar>rho\<bar> \<le> 1) (nat N) (\<lambda>i. 1) P" by blast
  have 1: "has_shape (nat N) (nat N) P" using P(2,3) by (rule rows_ok_has_shape)
  have N: "0 \<le> N" "N \<noteq> 0" using assms(1) by auto
  have 2: "\<exists>s. rouwenhorst depth N mu rho sigma = Inr (Finite s, P)"
    unfolding rouwenhorst_finite[OF P(1) assms(1,2)] by simp
  have 3: "\<forall>d < nat N - 1. compute_P d ((1 + rho) / 2) N = Inl RecursionError"
    using compute_P_shallow[OF assms(1)] by blast
  from P(1) 1 2 3 show ?thesis by blast
qed

theorem compute_P_terminates_witness:
  "(2 :: int) \<le> 4 \<and> \<bar>1 / 2 :: real\<bar> < 1 \<and> nat 4 - 1 \<le> (3 :: nat) \<and>
   (\<exists>P. compute_P 3 (3 / 4) 4 = Inr P \<and> has_shape 4 4 P)
   \<and> (\<exists>s P. rouwenhorst 3 4 0 (1 / 2) 1 = Inr (Finite s, P))
   \<and> compute_P 2 (3 / 4) 4 = Inl RecursionError"
proof -
  have "(2::int) \<le> 4" "\<bar>1 / 2 :: real\<bar> < 1" "nat 4 - 1 \<le> (3::nat)" by simp_all
  from compute_P_terminates[OF this, of 0 1] show ?thesis by simp
qed

section \<open>Arguments outside the domain of rouwenhorst\<close>

text \<open>
  Claim C4 says that \<^verbatim>\<open>rouwenhorst\<close> fails with InvalidParameter whenever \<open>N < 2\<close>,
  \<open>\<sigma> < 0\<close> or \<open>\<bar>\<rho>\<bar> \<ge> 1\<close>, and returns no chain. The function checks none of its
  arguments: for \<open>N = 2\<close>, \<open>\<rho> = 0\<close> and \<open>\<sigma> = -1\<close> it returns the states \<open>[1, -1]\<close> and
  the matrix with all entries one half.
\<close>

theorem rouwenhorst_invalid_counterexample:
  "(- 1 :: real) < 0 \<and>
   rouwenhorst 1 2 0 0 (- 1) = Inr (Finite [1, - 1], [[1 / 2, 1 / 2], [1 / 2, 1 / 2]])"
  by (simp add: rouwenhorst_def Let_def np_sqrt_def np_div_def np_mul_def np_neg_def
      np_linspace_def linspace_def np_add_def)

text \<open>
  Claim C4, amended. \<^verbatim>\<open>rouwenhorst\<close> never fails with InvalidParameter. For \<open>N < 2\<close>
  the recursion of \<^verbatim>\<open>compute_P\<close> never meets its base case and ends with Python's
  RecursionError. For \<open>N \<ge> 2\<close>, given \<open>N - 1\<close> nested calls, it returns a pair of state
  values and matrix for every \<open>\<sigma>\<close> and \<open>\<rho>\<close>: for \<open>\<bar>\<rho>\<bar> < 1\<close> the states are
  \<^verbatim>\<open>np.linspace(-f, f, N) + mu\<close>, also when \<open>\<sigma> < 0\<close>; for \<open>\<bar>\<rho>\<bar> \<ge> 1\<close> they are not
  finite.
\<close>

theorem rouwenhorst_no_validation:
  "rouwenhorst depth N mu rho sigma \<noteq> Inl InvalidParameter
   \<and> (N < 2 \<longrightarrow> rouwenhorst depth N mu rho sigma = Inl RecursionError)
   \<and> (2 \<le> N \<and> nat N - 1 \<le> depth \<longrightarrow>
        (\<exists>s P. rouwenhorst depth N mu rho sigma = Inr (s, P)
           \<and> (\<bar>rho\<bar> < 1 \<longrightarrow> s = Finite (map (\<lambda>x. x + mu)
                 (linspace (- (sqrt (of_int (N - 1)) * (sigma / sqrt (1 - rho\<^sup>2))))
                           (sqrt (of_int (N - 1)) * (sigma / sqrt (1 - rho\<^sup>2))) (nat N))))
           \<and> (1 \<le> \<bar>rho\<bar> \<longrightarrow> s = NonFinite)))"
proof -
  have 1: "rouwenhorst depth N mu rho sigma = Inl RecursionError" if "N < 2"
    using compute_P_below_two[OF that] by (simp add: rouwenhorst_def)
  have 2: "\<exists>s P. rouwenhorst depth N mu rho sigma = Inr (s, P)
           \<and> (\<bar>rho\<bar> < 1 \<longrightarrow> s = Finite (map (\<lambda>x. x + mu)
                 (linspace (- (sqrt (of_int (N - 1)) * (sigma / sqrt (1 - rho\<^sup>2))))
                           (sqrt (of_int (N - 1)) * (sigma / sqrt (1 - rho\<^sup>2))) (nat N))))
           \<and> (1 \<le> \<bar>rho\<bar> \<longrightarrow> s = NonFinite)"
    if a: "2 \<le> N" "nat N - 1 \<le> depth"
  proof -
    from compute_P_returns[OF a, of rho] obtain P where
      P: "compute_P depth ((1 + rho) / 2) N = Inr P" by blast
    show ?thesis
    proof (cases "\<bar>rho\<bar> < 1")
      case True
      then show ?thesis unfolding rouwenhorst_finite[OF P a(1) True] by simp
    next
      case False
      then have big: "1 \<le> \<bar>rho\<bar>" by simp
      show ?thesis unfolding rouwenhorst_nonfinite[OF P a(1) big] using big by simp
    qed
  qed
  have 3: "rouwenhorst depth N mu rho sigma \<noteq> Inl InvalidParameter"
  proof (cases "compute_P depth ((1 + rho) / 2) N")
    case (Inl e)
    then have "e = RecursionError" by (rule compute_P_error)
    with Inl show ?thesis by (simp add: rouwenhorst_def)
  next
    case (Inr P)
    show ?thesis
    proof
      assume "rouwenhorst depth N mu rho sigma = Inl InvalidParameter"
      then obtain a b where "np_linspace a b N = Inl InvalidParameter"
        unfolding rouwenhorst_def Let_def Inr by (auto split: sum.splits)
      then show False using np_linspace_error by fastforce
    qed
  qed
  from 1 2 3 show ?thesis by blast
qed

theorem rouwenhorst_no_validation_witness:
  "rouwenhorst 5 1 0 0 1 = Inl RecursionError
   \<and> (\<exists>P. rouwenhorst 1 2 0 0 (- 1) = Inr (Finite [1, - 1], P))
   \<and> (\<exists>P. rouwenhorst 1 2 0 1 1 = Inr (NonFinite, P))"
  using rouwenhorst_no_validation[of 5 1 0 0 1]
        rouwenhorst_no_validation[of 1 2 0 0 "- 1"]
        rouwenhorst_no_validation[of 1 2 0 1 1]
  by (simp add: linspace_def)

section \<open>Factor prices\<close>

lemma factor_prices_pos_ratio:
  assumes "param ''alpha'' = Some a" and "0 < K / L"
  shows "factor_prices K L param =
           Inr (Float (a * (K / L) powr (a - 1)), Float ((1 - a) * (K / L) powr a))"
proof -
  have "L \<noteq> 0" "K \<noteq> 0" using assms(2) by auto
  then show ?thesis using assms
    by (simp add: factor_prices_def getitem_def py_div_def py_pow_def py_scale_def)
qed

text \<open>
  Claim C5. For every \<open>K > 0\<close>, \<open>L > 0\<close> and \<open>\<alpha>\<close> in \<open>(0, 1)\<close>, \<^verbatim>\<open>factor_prices\<close> returns
  the interest rate \<open>r = \<alpha> (K / L) ^ (\<alpha> - 1)\<close> and the wage \<open>w = (1 - \<alpha>) (K / L) ^ \<alpha>\<close>;
  for \<open>\<alpha> = 0.5\<close> and \<open>K = L = 1\<close> it returns \<open>r = w = 0.5\<close>.
\<close>

theorem factor_prices_formula:
  assumes "0 < K" and "0 < L" and "0 < \<alpha>" and "\<alpha> < 1" and "param ''alpha'' = Some \<alpha>"
  shows "factor_prices K L param =
           Inr (Float (\<alpha> * (K / L) powr (\<alpha> - 1)), Float ((1 - \<alpha>) * (K / L) powr \<alpha>))
         \<and> (\<alpha> = 1 / 2 \<and> K = 1 \<and> L = 1 \<longrightarrow>
              factor_prices K L param = Inr (Float (1 / 2), Float (1 / 2)))"
proof -
  have "0 < K / L" using assms(1,2) by simp
  with assms(5) have "factor_prices K L param =
      Inr (Float (\<alpha> * (K / L) powr (\<alpha> - 1)), Float ((1 - \<alpha>) * (K / L) powr \<alpha>))"
    by (rule factor_prices_pos_ratio)
  then show ?thesis by auto
qed

theorem factor_prices_formula_witness:
  "(0 :: real) < 1 \<and> (0 :: real) < 1 / 2 \<and> (1 / 2 :: real) < 1 \<and>
   factor_prices 1 1 [''alpha'' \<mapsto> 1 / 2] = Inr (Float (1 / 2), Float (1 / 2))"
  using factor_prices_formula[of 1 1 "1 / 2" "[''alpha'' \<mapsto> 1 / 2]"] by simp

text \<open>
  Claim C10. \<^verbatim>\<open>factor_prices\<close> is homogeneous of degree zero in \<open>(K, L)\<close>: for every
  \<open>K > 0\<close>, \<open>L > 0\<close>, \<open>t > 0\<close> and parameters, \<^verbatim>\<open>factor_prices(t K, t L, param)\<close> returns
  what \<^verbatim>\<open>factor_prices(K, L, param)\<close> returns.
\<close>

theorem factor_prices_homogeneous:
  assumes "0 < K" and "0 < L" and "0 < t"
  shows "factor_prices (t * K) (t * L) param = factor_prices K L param"
proof -
  have "py_div (t * K) (t * L) = py_div K L" using assms by (simp add: py_div_def)
  then show ?thesis unfolding factor_prices_def by (simp only:)
qed

theorem factor_prices_homogeneous_witness:
  "(0 :: real) < 2 \<and> (0 :: real) < 5 \<and> (0 :: real) < 3 \<and>
   factor_prices (3 * 2) (3 * 5) [''alpha'' \<mapsto> 1 / 2] = factor_prices 2 5 [''alpha'' \<mapsto> 1 / 2]"
  using factor_prices_homogeneous[of 2 5 3 "[''alpha'' \<mapsto> 1 / 2]"] by simp

text \<open>
  Claim C6 says that \<^verbatim>\<open>factor_prices\<close> fails with InvalidParameter whenever \<open>K \<le> 0\<close>
  or \<open>L \<le> 0\<close>, and returns no prices. The function checks neither: for \<open>K = L = -1\<close>
  and \<open>\<alpha> = 0.5\<close> the ratio is one and it returns \<open>r = w = 0.5\<close>.
\<close>

theorem factor_prices_negative_counterexample:
  "(- 1 :: real) \<le> 0 \<and> factor_prices (- 1) (- 1) [''alpha'' \<mapsto> 1 / 2] = Inr (Float (1 / 2), Float (1 / 2))"
  by (simp add: factor_prices_def getitem_def py_div_def py_pow_def py_scale_def)

text \<open>
  Claim C6, amended. \<^verbatim>\<open>factor_prices\<close> never fails with InvalidParameter. With \<open>\<alpha>\<close> in
  \<open>(0, 1)\<close>: \<open>L = 0\<close> raises ZeroDivisionError; \<open>K = 0\<close> with \<open>L \<noteq> 0\<close> raises
  ZeroDivisionError (zero to a negative power); \<open>K < 0\<close> and \<open>L < 0\<close> return the prices
  of the ratio \<open>K / L\<close>; a negative ratio returns two complex numbers.
\<close>

theorem factor_prices_no_validation:
  assumes "param ''alpha'' = Some a" and "0 < a" and "a < 1"
  shows "factor_prices K L param \<noteq> Inl InvalidParameter
       \<and> (L = 0 \<longrightarrow> factor_prices K L param = Inl ZeroDivisionError)
       \<and> (K = 0 \<and> L \<noteq> 0 \<longrightarrow> factor_prices K L param = Inl ZeroDivisionError)
       \<and> (K < 0 \<and> L < 0 \<longrightarrow> factor_prices K L param =
             Inr (Float (a * (K / L) powr (a - 1)), Float ((1 - a) * (K / L) powr a)))
       \<and> (K / L < 0 \<longrightarrow> (\<exists>z1 z2. factor_prices K L param = Inr (Cplx z1, Cplx z2)))"
proof -
  have 1: "factor_prices K 0 param = Inl ZeroDivisionError"
    using assms(1) by (simp add: factor_prices_def getitem_def py_div_def)
  have 2: "factor_prices 0 L param = Inl ZeroDivisionError" if "L \<noteq> 0"
    using assms that by (simp add: factor_prices_def getitem_def py_div_def py_pow_def)
  have 3: "factor_prices K L param =
             Inr (Float (a * (K / L) powr (a - 1)), Float ((1 - a) * (K / L) powr a))"
    if "K < 0" "L < 0"
  proof -
    have "0 < K / L" using that by (simp add: zero_less_divide_iff)
    with assms(1) show ?thesis by (rule factor_prices_pos_ratio)
  qed
  have 4: "\<exists>z1 z2. factor_prices K L param = Inr (Cplx z1, Cplx z2)" if "K / L < 0"
  proof -
    have "L \<noteq> 0" "K \<noteq> 0" using that by auto
    moreover have "a \<notin> \<int>" "a - 1 \<notin> \<int>"
    proof -
      show "a \<notin> \<int>"
      proof
        assume "a \<in> \<int>"
        then obtain k :: int where "a = of_int k" by (auto elim: Ints_cases)
        with assms(2,3) show False by auto
      qed
      then show "a - 1 \<notin> \<int>" by (metis Ints_1 Ints_add diff_add_cancel)
    qed
    ultimately show ?thesis using assms(1) that
      by (simp add: factor_prices_def getitem_def py_div_def py_pow_def py_scale_def)
  qed
  have 5: "factor_prices K L param \<noteq> Inl InvalidParameter"
    using assms(1) 
    by (auto simp: factor_prices_def getitem_def py_div_def py_pow_def Let_def)
  from 1 2 3 4 5 show ?thesis by blast
qed

theorem factor_prices_no_validation_witness:
  "factor_prices 1 0 [''alpha'' \<mapsto> 1 / 2] = Inl ZeroDivisionError
   \<and> factor_prices 0 1 [''alpha'' \<mapsto> 1 / 2] = Inl ZeroDivisionError
   \<and> factor_prices (- 2) (- 2) [''alpha'' \<mapsto> 1 / 2] = Inr (Float (1 / 2), Float (1 / 2))
   \<and> (\<exists>z1 z2. factor_prices (- 1) 1 [''alpha'' \<mapsto> 1 / 2] = Inr (Cplx z1, Cplx z2))"
  using factor_prices_no_validation[where param = "[''alpha'' \<mapsto> 1 / 2]" and a = "1 / 2" and K = 1 and L = 0]
        factor_prices_no_validation[where param = "[''alpha'' \<mapsto> 1 / 2]" and a = "1 / 2" and K = 0 and L = 1]
        factor_prices_no_validation[where param = "[''alpha'' \<mapsto> 1 / 2]" and a = "1 / 2" and K = "- 2" and L = "- 2"]
        factor_prices_no_validation[where param = "[''alpha'' \<mapsto> 1 / 2]" and a = "1 / 2" and K = "- 1" and L = 1]
  by simp

section \<open>Aggregation\<close>

text \<open>
  Claim C7. For every distribution vector and state vector, \<^verbatim>\<open>aggregate_kl\<close> computes
  its two outputs \<open>K\<close> and \<open>L\<close> identically, both as the inner product
  \<^verbatim>\<open>dist @ states\<close>; hence the returned \<open>K\<close> always equals the returned \<open>L\<close>.
\<close>

theorem aggregate_kl_same:
  "aggregate_kl states distr param =
     (if length distr = length states
      then Inr (sum_list (map2 (*) distr states), sum_list (map2 (*) distr states))
      else Inl ValueError)
   \<and> (\<forall>K L. aggregate_kl states distr param = Inr (K, L) \<longrightarrow> K = L)"
  by (auto simp: aggregate_kl_def matmul_vec_def)

theorem aggregate_kl_same_witness:
  "aggregate_kl [1, 2] [1 / 4, 3 / 4] Map.empty = Inr (7 / 4, 7 / 4)"
  using aggregate_kl_same[of "[1, 2]" "[1 / 4, 3 / 4]" Map.empty] by simp

section \<open>Policy function iteration\<close>







end
